theory Spec2Isabelle
  imports Main
begin

section \<open>Bytes, text and exceptions\<close>

text \<open>
  The development embeds \<^verbatim>\<open>src/main.py\<close>, a Python 3 program: every line read from the
  socket is decoded from \<^verbatim>\<open>bytes\<close> to \<^verbatim>\<open>str\<close> before it is stripped and
  parsed, and every formatted \<^verbatim>\<open>str\<close> is encoded before it is written to the
  \<^verbatim>\<open>BytesIO\<close> buffer.

  A \<^verbatim>\<open>bytes\<close> object is a list of 8-bit characters. A \<^verbatim>\<open>str\<close> is represented by its
  UTF-8 encoding, so that \<^verbatim>\<open>bytes.decode('utf-8')\<close> is a validity check and
  \<^verbatim>\<open>str.encode('utf-8')\<close> is the identity. The builtins \<^verbatim>\<open>int\<close> and
  \<^verbatim>\<open>str.upper\<close> are modelled exactly on ASCII text; the digit, white-space and case
  properties of code points beyond ASCII are not modelled (such code points are read as
  having none), and the theorems that depend on them are stated for ASCII text. The
  interpreter's limit on the digits of an integer conversion is not modelled either: the
  theorems on integers are stated for the 64-bit range of the wire format.

  Two limits of the interpreter are not modelled, and the statements stay inside them. The
  functions below recurse as deep as a value is nested, where the interpreter raises
  \<^verbatim>\<open>RecursionError\<close> after about a thousand frames (the decoder takes three frames for
  each level of nesting): what is stated of nested values is stated for a nesting depth of
  at most 100. \<^verbatim>\<open>read(n)\<close> allocates its buffer of \<^verbatim>\<open>n\<close> bytes before it reads, which
  can raise \<^verbatim>\<open>MemoryError\<close> when \<^verbatim>\<open>n\<close> is large: what is stated of a read that returns
  is stated for \<^verbatim>\<open>n\<close> up to \<open>2 ^ 20\<close>.
\<close>

type_synonym bytes = "char list"

abbreviation CR :: char where "CR \<equiv> CHR 0x0D"
abbreviation LF :: char where "LF \<equiv> CHR 0x0A"
abbreviation TAB :: char where "TAB \<equiv> CHR 0x09"
abbreviation CRLF :: bytes where "CRLF \<equiv> [CR, LF]"

text \<open>
  The exceptions the program can raise: its own \<^verbatim>\<open>Disconnect\<close> and
  \<^verbatim>\<open>CommandError\<close> (with its message), and the builtin ones.
\<close>

datatype error =
    Disconnect
  | CommandError string
  | ValueError
  | TypeError
  | AttributeError
  | UnicodeDecodeError
  | OverflowError

text \<open>
  The Python values that travel through the program: what the decoder returns
  (\<^verbatim>\<open>None\<close>, \<^verbatim>\<open>int\<close>, \<^verbatim>\<open>str\<close>, \<^verbatim>\<open>bytes\<close>, \<^verbatim>\<open>list\<close>, \<^verbatim>\<open>dict\<close>) and the
  \<^verbatim>\<open>Error\<close> named tuple with its message. A \<^verbatim>\<open>dict\<close> is the list of its items in
  insertion order, with distinct keys. Values of other types (\<^verbatim>\<open>bool\<close>, \<^verbatim>\<open>float\<close>,
  objects) never come off the wire and are outside the model, so the last branch of
  \<^verbatim>\<open>_write\<close> (\<^verbatim>\<open>unrecognized type\<close>) has no counterpart below.
\<close>

datatype pyval =
    PNone
  | PInt int
  | PStr string
  | PBytes bytes
  | PError string
  | PList "pyval list"
  | PDict "(pyval \<times> pyval) list"

fun hashable :: "pyval \<Rightarrow> bool" where
  "hashable (PList _) = False"
| "hashable (PDict _) = False"
| "hashable _ = True"

subsection \<open>Dictionaries\<close>

text \<open>
  \<^verbatim>\<open>d[k] = v\<close> overwrites the value of a key that is present, in place, and appends a new
  key; \<^verbatim>\<open>del d[k]\<close> removes the key; \<^verbatim>\<open>d.get(k)\<close> is \<^term>\<open>map_of\<close>, with
  \<^verbatim>\<open>None\<close> for an absent key.
\<close>

fun dict_set :: "'k \<Rightarrow> 'v \<Rightarrow> ('k \<times> 'v) list \<Rightarrow> ('k \<times> 'v) list" where
  "dict_set k v [] = [(k, v)]"
| "dict_set k v (p # ps) = (if fst p = k then (k, v) # ps else p # dict_set k v ps)"

definition dict_del :: "'k \<Rightarrow> ('k \<times> 'v) list \<Rightarrow> ('k \<times> 'v) list" where
  "dict_del k ps = filter (\<lambda>p. fst p \<noteq> k) ps"

definition dict_get :: "(pyval \<times> pyval) list \<Rightarrow> pyval \<Rightarrow> pyval" where
  "dict_get d k = (case map_of d k of None \<Rightarrow> PNone | Some v \<Rightarrow> v)"

text \<open>\<^verbatim>\<open>dict(pairs)\<close>: the pairs are inserted from left to right; a key that cannot be
  hashed raises \<^verbatim>\<open>TypeError\<close>.\<close>

fun dict_of :: "(pyval \<times> pyval) list \<Rightarrow> (pyval \<times> pyval) list \<Rightarrow> error + (pyval \<times> pyval) list" where
  "dict_of d [] = Inr d"
| "dict_of d (p # ps) =
     (if hashable (fst p) then dict_of (dict_set (fst p) (snd p) d) ps else Inl TypeError)"

text \<open>The slices \<^verbatim>\<open>xs[::2]\<close> and \<^verbatim>\<open>xs[1::2]\<close>.\<close>

fun slice_even :: "'a list \<Rightarrow> 'a list" where
  "slice_even [] = []"
| "slice_even [x] = [x]"
| "slice_even (x # y # r) = x # slice_even r"

fun slice_odd :: "'a list \<Rightarrow> 'a list" where
  "slice_odd [] = []"
| "slice_odd [x] = []"
| "slice_odd (x # y # r) = y # slice_odd r"

subsection \<open>The socket file\<close>

text \<open>
  The input side of the socket file is the list of bytes the peer sends before it closes
  its side. \<^verbatim>\<open>read(n)\<close> of the buffered reader returns at most \<^verbatim>\<open>n\<close> bytes (fewer
  only at the end of the stream), everything that is left when \<^verbatim>\<open>n\<close> is -1, and raises
  \<^verbatim>\<open>ValueError\<close> when \<^verbatim>\<open>n\<close> is below -1. Its argument is converted to a signed 64-bit
  size first, which raises \<^verbatim>\<open>OverflowError\<close> outside that range. \<^verbatim>\<open>readline()\<close>
  returns the bytes up to and including the first line feed, or everything that is left
  when there is none. Both return the rest of the stream with what they read.
\<close>

definition read :: "int \<Rightarrow> bytes \<Rightarrow> error + bytes \<times> bytes" where
  "read n s =
     (if n < - (2 ^ 63) \<or> 2 ^ 63 - 1 < n then Inl OverflowError
      else if n < - 1 then Inl ValueError
      else if n = - 1 then Inr (s, [])
      else Inr (take (nat n) s, drop (nat n) s))"

definition readline :: "bytes \<Rightarrow> bytes \<times> bytes" where
  "readline s =
     (case dropWhile (\<lambda>c. c \<noteq> LF) s of
        [] \<Rightarrow> (s, [])
      | _ # r \<Rightarrow> (takeWhile (\<lambda>c. c \<noteq> LF) s @ [LF], r))"

subsection \<open>Builtins on text\<close>

definition cont :: "nat \<Rightarrow> bool" where
  "cont b = (0x80 \<le> b \<and> b \<le> 0xBF)"

text \<open>Well-formed UTF-8 (no overlong forms, no surrogates, nothing above U+10FFFF).\<close>

fun utf8_valid :: "nat list \<Rightarrow> bool" where
  "utf8_valid [] = True"
| "utf8_valid (a # r) =
     (if a < 0x80 then utf8_valid r
      else if 0xC2 \<le> a \<and> a \<le> 0xDF then
        (case r of b # r' \<Rightarrow> cont b \<and> utf8_valid r' | _ \<Rightarrow> False)
      else if 0xE0 \<le> a \<and> a \<le> 0xEF then
        (case r of
           b # c # r' \<Rightarrow>
             (if a = 0xE0 then 0xA0 \<le> b \<and> b \<le> 0xBF
              else if a = 0xED then 0x80 \<le> b \<and> b \<le> 0x9F
              else cont b) \<and> cont c \<and> utf8_valid r'
         | _ \<Rightarrow> False)
      else if 0xF0 \<le> a \<and> a \<le> 0xF4 then
        (case r of
           b # c # d # r' \<Rightarrow>
             (if a = 0xF0 then 0x90 \<le> b \<and> b \<le> 0xBF
              else if a = 0xF4 then 0x80 \<le> b \<and> b \<le> 0x8F
              else cont b) \<and> cont c \<and> cont d \<and> utf8_valid r'
         | _ \<Rightarrow> False)
      else False)"

text \<open>\<^verbatim>\<open>b.decode('utf-8')\<close>.\<close>

definition decode :: "bytes \<Rightarrow> error + string" where
  "decode b = (if utf8_valid (map of_char b) then Inr b else Inl UnicodeDecodeError)"

text \<open>\<^verbatim>\<open>s.rstrip(cs)\<close>: the trailing characters that are in \<^verbatim>\<open>cs\<close> are removed.\<close>

definition rstrip :: "string \<Rightarrow> string \<Rightarrow> string" where
  "rstrip cs s = rev (dropWhile (\<lambda>c. c \<in> set cs) (rev s))"

definition is_digit :: "char \<Rightarrow> bool" where
  "is_digit c = (48 \<le> (of_char c :: nat) \<and> (of_char c :: nat) \<le> 57)"

definition is_space :: "char \<Rightarrow> bool" where
  "is_space c = (c = CHR '' '' \<or> (9 \<le> (of_char c :: nat) \<and> (of_char c :: nat) \<le> 13))"

text \<open>The digits of a decimal literal: single underscores may stand between digits.\<close>

fun digits_ok :: "string \<Rightarrow> bool" where
  "digits_ok [] = False"
| "digits_ok [c] = is_digit c"
| "digits_ok (c # d # r) =
     (is_digit c \<and> (if d = CHR ''_'' then digits_ok r else digits_ok (d # r)))"

definition digits_value :: "string \<Rightarrow> int" where
  "digits_value ds = foldl (\<lambda>a c. 10 * a + (int (of_char c) - 48)) 0 (filter is_digit ds)"

text \<open>\<^verbatim>\<open>int(s)\<close> in base 10: white space around, an optional sign, the digits.\<close>

definition py_int :: "string \<Rightarrow> error + int" where
  "py_int s =
     (let t = rev (dropWhile is_space (rev (dropWhile is_space s)));
          neg = (t \<noteq> [] \<and> hd t = CHR ''-'');
          ds = (if t \<noteq> [] \<and> (hd t = CHR ''-'' \<or> hd t = CHR ''+'') then tl t else t)
      in if digits_ok ds then Inr (if neg then - digits_value ds else digits_value ds)
         else Inl ValueError)"

definition digit_char :: "nat \<Rightarrow> char" where
  "digit_char d = ''0123456789'' ! d"

fun show_nat :: "nat \<Rightarrow> string" where
  "show_nat n = (if n < 10 then [digit_char n] else show_nat (n div 10) @ [digit_char (n mod 10)])"

declare show_nat.simps [simp del]

text \<open>\<^verbatim>\<open>'%s' % n\<close> for an integer \<^verbatim>\<open>n\<close>.\<close>

definition show_int :: "int \<Rightarrow> string" where
  "show_int i = (if i < 0 then CHR ''-'' # show_nat (nat (- i)) else show_nat (nat i))"

definition hex_char :: "nat \<Rightarrow> char" where
  "hex_char d = ''0123456789abcdef'' ! d"

text \<open>
  \<^verbatim>\<open>'%s' % b\<close> for a \<^verbatim>\<open>bytes\<close> object \<^verbatim>\<open>b\<close> is its \<^verbatim>\<open>repr\<close>: the letter b and
  the bytes between quotes, with the quote, the backslash, tab, line feed and carriage
  return escaped and every other byte outside the printable ASCII range written as
  \<^verbatim>\<open>\xhh\<close>. The quote is the double one only when the bytes hold a single quote and no
  double quote.
\<close>

definition repr_byte :: "char \<Rightarrow> char \<Rightarrow> string" where
  "repr_byte q c =
     (if c = q \<or> c = CHR 0x5C then [CHR 0x5C, c]
      else if c = TAB then [CHR 0x5C, CHR ''t'']
      else if c = LF then [CHR 0x5C, CHR ''n'']
      else if c = CR then [CHR 0x5C, CHR ''r'']
      else if (of_char c :: nat) < 32 \<or> 127 \<le> (of_char c :: nat) then
        [CHR 0x5C, CHR ''x'', hex_char (of_char c div 16), hex_char (of_char c mod 16)]
      else [c])"

definition bytes_repr :: "bytes \<Rightarrow> string" where
  "bytes_repr b =
     (let q = (if CHR 0x27 \<in> set b \<and> CHR 0x22 \<notin> set b then CHR 0x22 else CHR 0x27)
      in CHR ''b'' # q # concat (map (repr_byte q) b) @ [q])"

text \<open>\<^verbatim>\<open>s.upper()\<close> on ASCII letters.\<close>

definition upper_char :: "char \<Rightarrow> char" where
  "upper_char c =
     (case map_of (zip ''abcdefghijklmnopqrstuvwxyz'' ''ABCDEFGHIJKLMNOPQRSTUVWXYZ'') c of
        Some u \<Rightarrow> u
      | None \<Rightarrow> c)"

definition upper :: "string \<Rightarrow> string" where
  "upper s = map upper_char s"

section \<open>ProtocolHandler\<close>

subsection \<open>Decoding\<close>

text \<open>
  The expression \<^verbatim>\<open>int(socket_file.readline().decode('utf-8').rstrip('\r\n'))\<close> of
  \<^verbatim>\<open>handle_integer\<close>, \<^verbatim>\<open>handle_binary\<close>, \<^verbatim>\<open>handle_array\<close> and
  \<^verbatim>\<open>handle_dictionary\<close>, and the line of \<^verbatim>\<open>handle_simple_string\<close> and
  \<^verbatim>\<open>handle_error_message\<close>.
\<close>

definition read_text :: "bytes \<Rightarrow> error + string \<times> bytes" where
  "read_text s =
     (case decode (fst (readline s)) of
        Inl e \<Rightarrow> Inl e
      | Inr t \<Rightarrow> Inr (rstrip CRLF t, snd (readline s)))"

definition read_int :: "bytes \<Rightarrow> error + int \<times> bytes" where
  "read_int s =
     (case read_text s of
        Inl e \<Rightarrow> Inl e
      | Inr (t, r) \<Rightarrow> (case py_int t of Inl e \<Rightarrow> Inl e | Inr n \<Rightarrow> Inr (n, r)))"

definition handle_simple_string :: "bytes \<Rightarrow> error + pyval \<times> bytes" where
  "handle_simple_string s =
     (case read_text s of Inl e \<Rightarrow> Inl e | Inr (t, r) \<Rightarrow> Inr (PStr t, r))"

text \<open>\<^verbatim>\<open>handle_error_message\<close> returns the text of the line, a \<^verbatim>\<open>str\<close>, as
  \<^verbatim>\<open>handle_simple_string\<close> does: it does not build an \<^verbatim>\<open>Error\<close>.\<close>

definition handle_error_message :: "bytes \<Rightarrow> error + pyval \<times> bytes" where
  "handle_error_message s =
     (case read_text s of Inl e \<Rightarrow> Inl e | Inr (t, r) \<Rightarrow> Inr (PStr t, r))"

definition handle_integer :: "bytes \<Rightarrow> error + pyval \<times> bytes" where
  "handle_integer s =
     (case read_int s of Inl e \<Rightarrow> Inl e | Inr (n, r) \<Rightarrow> Inr (PInt n, r))"

text \<open>\<^verbatim>\<open>socket_file.read(number_of_bytes)[:-2]\<close>: what was read, without its last two
  bytes.\<close>

definition handle_binary :: "bytes \<Rightarrow> error + pyval \<times> bytes" where
  "handle_binary s =
     (case read_int s of
        Inl e \<Rightarrow> Inl e
      | Inr (number_of_bytes, r) \<Rightarrow>
          if number_of_bytes = - 1 then Inr (PNone, r)
          else (case read (number_of_bytes + 2) r of
                  Inl e \<Rightarrow> Inl e
                | Inr (b, r') \<Rightarrow> Inr (PBytes (take (length b - 2) b), r')))"

lemma readline_length: "length (snd (readline s)) \<le> length s"
proof -
  have "length (dropWhile (\<lambda>c. c \<noteq> LF) s) \<le> length s"
    by (rule length_dropWhile_le)
  then show ?thesis
    by (auto simp: readline_def split: list.splits)
qed

lemma readline_Nil: "readline [] = ([], [])"
  by (simp add: readline_def)

lemma py_int_Nil: "py_int [] = Inl ValueError"
  by (simp add: py_int_def)

lemma readline_shorter: "s \<noteq> [] \<Longrightarrow> length (snd (readline s)) < length s"
proof -
  assume ne: "s \<noteq> []"
  have le: "length (dropWhile (\<lambda>c. c \<noteq> LF) s) \<le> length s"
    by (rule length_dropWhile_le)
  show ?thesis
  proof (cases "dropWhile (\<lambda>c. c \<noteq> LF) s")
    case Nil
    show ?thesis unfolding readline_def Nil using ne by simp
  next
    case (Cons a r)
    show ?thesis unfolding readline_def Cons using le Cons by simp
  qed
qed

lemma read_text_length: "read_text s = Inr (t, r) \<Longrightarrow> length r \<le> length s"
  using readline_length [of s] by (auto simp: read_text_def split: sum.splits)

lemma read_int_shorter: "read_int s = Inr (n, r) \<Longrightarrow> length r < length s"
proof (cases "s = []")
  case True
  assume "read_int s = Inr (n, r)"
  with True show ?thesis
    by (simp add: read_int_def read_text_def readline_Nil decode_def rstrip_def py_int_Nil)
next
  case False
  assume "read_int s = Inr (n, r)"
  with readline_shorter [OF False] show ?thesis
    by (auto simp: read_int_def read_text_def split: sum.splits)
qed

text \<open>
  \<^verbatim>\<open>handle_request\<close> reads the tag byte and calls the handler of the tag;
  \<^verbatim>\<open>handle_array\<close> and \<^verbatim>\<open>handle_dictionary\<close> call it back for every element.
  \<^verbatim>\<open>handle_requests k\<close> is the list comprehension
  \<^verbatim>\<open>[self.handle_request(socket_file) for _ in range(k)]\<close>; a negative count gives an
  empty range. A tag that is no key of \<^verbatim>\<open>handlers\<close> raises \<^verbatim>\<open>KeyError\<close>, which
  \<^verbatim>\<open>handle_request\<close> turns into \<^verbatim>\<open>CommandError('bad request')\<close>; a tag byte that is
  not ASCII cannot be decoded.
\<close>

function handle_request :: "bytes \<Rightarrow> error + pyval \<times> bytes"
  and handle_array :: "bytes \<Rightarrow> error + pyval \<times> bytes"
  and handle_dictionary :: "bytes \<Rightarrow> error + pyval \<times> bytes"
  and handle_requests :: "nat \<Rightarrow> bytes \<Rightarrow> error + pyval list \<times> bytes"
where
  "handle_request s =
     (case s of
        [] \<Rightarrow> Inl Disconnect
      | first_byte # r \<Rightarrow>
          if 128 \<le> (of_char first_byte :: nat) then Inl UnicodeDecodeError
          else if first_byte = CHR ''+'' then handle_simple_string r
          else if first_byte = CHR ''-'' then handle_error_message r
          else if first_byte = CHR '':'' then handle_integer r
          else if first_byte = CHR ''$'' then handle_binary r
          else if first_byte = CHR ''*'' then handle_array r
          else if first_byte = CHR ''%'' then handle_dictionary r
          else Inl (CommandError ''bad request''))"
| "handle_array s =
     (case read_int s of
        Inl e \<Rightarrow> Inl e
      | Inr (number_of_elements, r) \<Rightarrow>
          (case handle_requests (nat number_of_elements) r of
             Inl e \<Rightarrow> Inl e
           | Inr (elements, r') \<Rightarrow> Inr (PList elements, r')))"
| "handle_dictionary s =
     (case read_int s of
        Inl e \<Rightarrow> Inl e
      | Inr (number_of_elements, r) \<Rightarrow>
          (case handle_requests (nat (number_of_elements * 2)) r of
             Inl e \<Rightarrow> Inl e
           | Inr (elements, r') \<Rightarrow>
               (case dict_of [] (zip (slice_even elements) (slice_odd elements)) of
                  Inl e \<Rightarrow> Inl e
                | Inr d \<Rightarrow> Inr (PDict d, r'))))"
| "handle_requests 0 s = Inr ([], s)"
| "handle_requests (Suc k) s =
     (case handle_request s of
        Inl e \<Rightarrow> Inl e
      | Inr (x, r) \<Rightarrow>
          (case handle_requests k r of
             Inl e \<Rightarrow> Inl e
           | Inr (xs, r') \<Rightarrow> Inr (x # xs, r')))"
  by pat_completeness auto

lemma read_int_length: "read_int s = Inr (n, r) \<Longrightarrow> length r \<le> length s"
  using read_int_shorter [of s n r] by simp

lemma handle_simple_string_length: "handle_simple_string s = Inr (v, r) \<Longrightarrow> length r \<le> length s"
  by (auto simp: handle_simple_string_def split: sum.splits dest: read_text_length)

lemma handle_error_message_length: "handle_error_message s = Inr (v, r) \<Longrightarrow> length r \<le> length s"
  by (auto simp: handle_error_message_def split: sum.splits dest: read_text_length)

lemma handle_integer_length: "handle_integer s = Inr (v, r) \<Longrightarrow> length r \<le> length s"
  by (auto simp: handle_integer_def split: sum.splits dest: read_int_length)

lemma read_length: "read n s = Inr (b, r) \<Longrightarrow> length r \<le> length s"
  by (auto simp: read_def split: if_splits)

lemma handle_binary_length: "handle_binary s = Inr (v, r) \<Longrightarrow> length r \<le> length s"
  by (fastforce simp: handle_binary_def split: sum.splits if_splits dest: read_int_length read_length)

text \<open>On its domain the decoder returns a suffix of the stream, hence it terminates: every
  call reads at least the tag byte.\<close>

lemma handle_request_dom_length:
  "handle_request_handle_array_handle_dictionary_handle_requests_dom (Inl (Inl s)) \<Longrightarrow>
     handle_request s = Inr (v, r) \<Longrightarrow> length r \<le> length s"
  "handle_request_handle_array_handle_dictionary_handle_requests_dom (Inl (Inr s1)) \<Longrightarrow>
     handle_array s1 = Inr (v1, r1) \<Longrightarrow> length r1 \<le> length s1"
  "handle_request_handle_array_handle_dictionary_handle_requests_dom (Inr (Inl s2)) \<Longrightarrow>
     handle_dictionary s2 = Inr (v2, r2) \<Longrightarrow> length r2 \<le> length s2"
  "handle_request_handle_array_handle_dictionary_handle_requests_dom (Inr (Inr (k, s3))) \<Longrightarrow>
     handle_requests k s3 = Inr (vs, r3) \<Longrightarrow> length r3 \<le> length s3"
proof (induct s and s1 and s2 and k s3 arbitrary: v r and v1 r1 and v2 r2 and vs r3
    rule: handle_request_handle_array_handle_dictionary_handle_requests.pinduct)
  case (1 s)
  show ?case
  proof (cases s)
    case Nil
    with "1.prems" "1.hyps"(1) show ?thesis by (simp add: handle_request.psimps)
  next
    case (Cons b t)
    have "length r \<le> length t"
      using "1.prems" "1.hyps"(1) "1.hyps"(2) [OF Cons, of v r] "1.hyps"(3) [OF Cons, of v r] Cons
      by (auto simp: handle_request.psimps split: if_splits
          dest: handle_simple_string_length handle_error_message_length handle_integer_length
            handle_binary_length)
    with Cons show ?thesis by simp
  qed
next
  case (2 s)
  from "2.prems" "2.hyps"(1) obtain n t where a: "read_int s = Inr (n, t)"
    and b: "handle_requests (nat n) t = Inr (case v1 of PList xs \<Rightarrow> xs, r1)"
    by (auto simp: handle_array.psimps split: sum.splits)
  from "2.hyps"(2) [OF a refl b] read_int_length [OF a] show ?case by simp
next
  case (3 s)
  from "3.prems" "3.hyps"(1) obtain n t xs where a: "read_int s = Inr (n, t)"
    and b: "handle_requests (nat (n * 2)) t = Inr (xs, r2)"
    by (auto simp: handle_dictionary.psimps split: sum.splits)
  from "3.hyps"(2) [OF a refl b] read_int_length [OF a] show ?case by simp
next
  case (4 s)
  then show ?case by (simp add: handle_requests.psimps)
next
  case (5 k s)
  from "5.prems" "5.hyps"(1) obtain x t xs where a: "handle_request s = Inr (x, t)"
    and b: "handle_requests k t = Inr (xs, r3)"
    by (auto simp: handle_requests.psimps split: sum.splits)
  from "5.hyps"(2) [OF a] "5.hyps"(3) [OF a refl b] show ?case by simp
qed

termination handle_request
proof (relation "inv_image (less_than <*lex*> less_than)
    (\<lambda>x. case x of Inl (Inl s) \<Rightarrow> (length s, 0) | Inl (Inr s) \<Rightarrow> (length s, 0)
       | Inr (Inl s) \<Rightarrow> (length s, 0) | Inr (Inr (k, s)) \<Rightarrow> (length s, Suc k))", goal_cases)
  case 1
  show ?case by (intro wf_inv_image wf_lex_prod wf_less_than)
next
  case (2 s b r)
  then show ?case by simp
next
  case (3 s b r)
  then show ?case by simp
next
  case (4 s p n r)
  then show ?case using read_int_shorter [of s n r] by simp
next
  case (5 s p n r)
  then show ?case using read_int_shorter [of s n r] by simp
next
  case (6 k s)
  show ?case by simp
next
  case (7 k s p x r)
  then show ?case using handle_request_dom_length(1) [of s x r] by auto
qed

declare handle_request.simps [simp del] handle_array.simps [simp del]
  handle_dictionary.simps [simp del]

text \<open>The decoder as a whole returns a suffix of the stream, and a proper one when it
  returns a value.\<close>

lemma handle_request_length:
  "handle_request s = Inr (v, r) \<Longrightarrow> length r \<le> length s"
  "handle_array s1 = Inr (v1, r1) \<Longrightarrow> length r1 \<le> length s1"
  "handle_dictionary s2 = Inr (v2, r2) \<Longrightarrow> length r2 \<le> length s2"
  "handle_requests k s3 = Inr (vs, r3) \<Longrightarrow> length r3 \<le> length s3"
proof (induct s and s1 and s2 and k s3 arbitrary: v r and v1 r1 and v2 r2 and vs r3
    rule: handle_request_handle_array_handle_dictionary_handle_requests.induct)
  case (1 s)
  show ?case
  proof (cases s)
    case Nil
    with "1.prems" show ?thesis by (simp add: handle_request.simps)
  next
    case (Cons b t)
    have "length r \<le> length t"
      using "1.prems" "1.hyps"(1) [OF Cons, of v r] "1.hyps"(2) [OF Cons, of v r] Cons
      by (auto simp: handle_request.simps split: if_splits
          dest: handle_simple_string_length handle_error_message_length handle_integer_length
            handle_binary_length)
    with Cons show ?thesis by simp
  qed
next
  case (2 s)
  from "2.prems" obtain n t xs where a: "read_int s = Inr (n, t)"
    and b: "handle_requests (nat n) t = Inr (xs, r1)"
    by (auto simp: handle_array.simps split: sum.splits)
  from "2.hyps" [OF a refl b] read_int_length [OF a] show ?case by simp
next
  case (3 s)
  from "3.prems" obtain n t xs where a: "read_int s = Inr (n, t)"
    and b: "handle_requests (nat (n * 2)) t = Inr (xs, r2)"
    by (auto simp: handle_dictionary.simps split: sum.splits)
  from "3.hyps" [OF a refl b] read_int_length [OF a] show ?case by simp
next
  case (4 s)
  then show ?case by simp
next
  case (5 k s)
  from "5.prems" obtain x t xs where a: "handle_request s = Inr (x, t)"
    and b: "handle_requests k t = Inr (xs, r3)"
    by (auto split: sum.splits)
  from "5.hyps"(1) [OF a] "5.hyps"(2) [OF a refl b] show ?case by simp
qed

lemma handle_request_shorter:
  assumes "handle_request s = Inr (v, r)"
  shows "length r < length s"
proof (cases s)
  case Nil
  with assms show ?thesis by (simp add: handle_request.simps)
next
  case (Cons b t)
  with assms have "length r \<le> length t"
    by (auto simp: handle_request.simps split: if_splits
        dest: handle_simple_string_length handle_error_message_length handle_integer_length
          handle_binary_length handle_request_length(2) handle_request_length(3))
  with Cons show ?thesis by simp
qed


subsection \<open>Encoding\<close>

text \<open>
  \<^verbatim>\<open>_write\<close> formats a \<^verbatim>\<open>str\<close> with the \<^verbatim>\<open>%\<close> operator and encodes it before
  writing it to the buffer. For \<^verbatim>\<open>bytes\<close> (and \<^verbatim>\<open>str\<close>, encoded first) the payload
  that \<^verbatim>\<open>%s\<close> inserts is the \<^verbatim>\<open>repr\<close> of the bytes, after a length that counts the
  bytes themselves. For \<^verbatim>\<open>None\<close> the \<^verbatim>\<open>str\<close> is written without being encoded, which
  \<^verbatim>\<open>BytesIO.write\<close> refuses with \<^verbatim>\<open>TypeError\<close>. A \<^verbatim>\<open>list\<close> and a \<^verbatim>\<open>tuple\<close> take the
  same branch. The result is the content of the buffer; an exception leaves nothing to
  send.
\<close>

function write_data :: "pyval \<Rightarrow> error + bytes"
  and write_items :: "pyval list \<Rightarrow> error + bytes"
  and write_pairs :: "(pyval \<times> pyval) list \<Rightarrow> error + bytes"
where
  "write_data (PStr s) = Inr (CHR ''$'' # show_int (int (length s)) @ CRLF @ bytes_repr s @ CRLF)"
| "write_data (PBytes b) = Inr (CHR ''$'' # show_int (int (length b)) @ CRLF @ bytes_repr b @ CRLF)"
| "write_data (PInt n) = Inr (CHR '':'' # show_int n @ CRLF)"
| "write_data (PError message) = Inr (CHR ''-'' # message @ CRLF)"
| "write_data (PList xs) =
     (case write_items xs of
        Inl e \<Rightarrow> Inl e
      | Inr body \<Rightarrow> Inr (CHR ''*'' # show_int (int (length xs)) @ CRLF @ body))"
| "write_data (PDict d) =
     (case write_pairs d of
        Inl e \<Rightarrow> Inl e
      | Inr body \<Rightarrow> Inr (CHR ''%'' # show_int (int (length d)) @ CRLF @ body))"
| "write_data PNone = Inl TypeError"
| "write_items [] = Inr []"
| "write_items (item # xs) =
     (case write_data item of
        Inl e \<Rightarrow> Inl e
      | Inr a \<Rightarrow> (case write_items xs of Inl e \<Rightarrow> Inl e | Inr b \<Rightarrow> Inr (a @ b)))"
| "write_pairs [] = Inr []"
| "write_pairs ((key, val) # ps) =
     (case write_data key of
        Inl e \<Rightarrow> Inl e
      | Inr a \<Rightarrow>
          (case write_data val of
             Inl e \<Rightarrow> Inl e
           | Inr b \<Rightarrow> (case write_pairs ps of Inl e \<Rightarrow> Inl e | Inr c \<Rightarrow> Inr (a @ b @ c))))"
  by pat_completeness auto
termination
  by (relation "measure (\<lambda>x. case x of Inl v \<Rightarrow> size v | Inr (Inl xs) \<Rightarrow> size_list size xs
        | Inr (Inr ps) \<Rightarrow> size_list (size_prod size size) ps)") auto

text \<open>\<^verbatim>\<open>write_response\<close>: what is written to the socket file and flushed.\<close>

definition write_response :: "pyval \<Rightarrow> error + bytes" where
  "write_response data = write_data data"

section \<open>Server\<close>

subsection \<open>The store\<close>

text \<open>
  \<^verbatim>\<open>self._kv\<close> is a dictionary. Every operation takes the store and returns its reply, or
  the exception it raises, with the store it leaves. A key that cannot be hashed raises
  \<^verbatim>\<open>TypeError\<close>.
\<close>

type_synonym kv = "(pyval \<times> pyval) list"

definition server_get :: "kv \<Rightarrow> pyval \<Rightarrow> (error + pyval) \<times> kv" where
  "server_get kv key = (if hashable key then (Inr (dict_get kv key), kv) else (Inl TypeError, kv))"

definition server_set :: "kv \<Rightarrow> pyval \<Rightarrow> pyval \<Rightarrow> (error + pyval) \<times> kv" where
  "server_set kv key val =
     (if hashable key then (Inr (PInt 1), dict_set key val kv) else (Inl TypeError, kv))"

definition server_delete :: "kv \<Rightarrow> pyval \<Rightarrow> (error + pyval) \<times> kv" where
  "server_delete kv key =
     (if \<not> hashable key then (Inl TypeError, kv)
      else if key \<in> fst ` set kv then (Inr (PInt 1), dict_del key kv)
      else (Inr (PInt 0), kv))"

definition server_flush :: "kv \<Rightarrow> (error + pyval) \<times> kv" where
  "server_flush kv = (Inr (PInt (int (length kv))), [])"

definition server_mget :: "kv \<Rightarrow> pyval list \<Rightarrow> (error + pyval) \<times> kv" where
  "server_mget kv keys =
     (if list_all hashable keys then (Inr (PList (map (dict_get kv) keys)), kv)
      else (Inl TypeError, kv))"

text \<open>The loop of \<^verbatim>\<open>mset\<close> over \<^verbatim>\<open>zip(items[::2], items[1::2])\<close>: the pairs before a
  key that cannot be hashed have been stored when the exception is raised.\<close>

fun mset_loop :: "kv \<Rightarrow> (pyval \<times> pyval) list \<Rightarrow> (error + pyval) \<times> kv" where
  "mset_loop kv [] = (Inr (PInt 1), kv)"
| "mset_loop kv ((key, val) # r) =
     (if hashable key then mset_loop (dict_set key val kv) r else (Inl TypeError, kv))"

definition server_mset :: "kv \<Rightarrow> pyval list \<Rightarrow> (error + pyval) \<times> kv" where
  "server_mset kv items = mset_loop kv (zip (slice_even items) (slice_odd items))"

text \<open>The argument list of \<^verbatim>\<open>MSET\<close> that spells out a list of pairs.\<close>

definition flatten :: "('a \<times> 'a) list \<Rightarrow> 'a list" where
  "flatten ps = concat (map (\<lambda>p. [fst p, snd p]) ps)"

subsection \<open>Dispatch\<close>

text \<open>
  The command table. \<^verbatim>\<open>self._commands[command](*data[1:])\<close> binds the arguments to the
  parameters of the method; a call with the wrong number of arguments raises
  \<^verbatim>\<open>TypeError\<close>.
\<close>

definition get_commands :: "(string \<times> (kv \<Rightarrow> pyval list \<Rightarrow> (error + pyval) \<times> kv)) list" where
  "get_commands =
     [(''GET'', \<lambda>kv args. case args of [key] \<Rightarrow> server_get kv key | _ \<Rightarrow> (Inl TypeError, kv)),
      (''SET'', \<lambda>kv args. case args of [key, val] \<Rightarrow> server_set kv key val | _ \<Rightarrow> (Inl TypeError, kv)),
      (''FLUSH'', \<lambda>kv args. case args of [] \<Rightarrow> server_flush kv | _ \<Rightarrow> (Inl TypeError, kv)),
      (''DELETE'', \<lambda>kv args. case args of [key] \<Rightarrow> server_delete kv key | _ \<Rightarrow> (Inl TypeError, kv)),
      (''MGET'', \<lambda>kv args. server_mget kv args),
      (''MSET'', \<lambda>kv args. server_mset kv args)]"

fun is_list :: "pyval \<Rightarrow> bool" where
  "is_list (PList _) = True"
| "is_list _ = False"

text \<open>\<^verbatim>\<open>data.split()\<close> exists for \<^verbatim>\<open>str\<close> and \<^verbatim>\<open>bytes\<close>; for every other type the
  attribute lookup raises, and the bare \<^verbatim>\<open>except\<close> catches it.\<close>

fun has_split :: "pyval \<Rightarrow> bool" where
  "has_split (PStr _) = True"
| "has_split (PBytes _) = True"
| "has_split _ = False"

fun truthy :: "pyval \<Rightarrow> bool" where
  "truthy PNone = False"
| "truthy (PInt n) = (n \<noteq> 0)"
| "truthy (PStr s) = (s \<noteq> [])"
| "truthy (PBytes b) = (b \<noteq> [])"
| "truthy (PError _) = True"
| "truthy (PList xs) = (xs \<noteq> [])"
| "truthy (PDict d) = (d \<noteq> [])"

text \<open>The number of bytes of the UTF-8 form of a code point, from its first byte; the code
  points of a \<^verbatim>\<open>str\<close>.\<close>

definition cp_len :: "char \<Rightarrow> nat" where
  "cp_len c =
     (if (of_char c :: nat) < 0x80 then 1 else if (of_char c :: nat) < 0xE0 then 2
      else if (of_char c :: nat) < 0xF0 then 3 else 4)"

function chars :: "string \<Rightarrow> string list" where
  "chars [] = []"
| "chars (c # r) = (c # take (cp_len c - 1) r) # chars (drop (cp_len c - 1) r)"
  by pat_completeness auto
termination
  by (relation "measure length") auto

text \<open>\<^verbatim>\<open>data[0]\<close> and \<^verbatim>\<open>data[1:]\<close> (unpacked into the arguments of the call) of a
  \<^verbatim>\<open>list\<close>, a \<^verbatim>\<open>str\<close> or \<^verbatim>\<open>bytes\<close> that is not empty: an element of \<^verbatim>\<open>bytes\<close> is
  an \<^verbatim>\<open>int\<close>.\<close>

fun item0 :: "pyval \<Rightarrow> error + pyval" where
  "item0 (PList (x # xs)) = Inr x"
| "item0 (PStr (c # r)) = Inr (PStr (c # take (cp_len c - 1) r))"
| "item0 (PBytes (c # r)) = Inr (PInt (int (of_char c)))"
| "item0 _ = Inl TypeError"

fun items_from1 :: "pyval \<Rightarrow> pyval list" where
  "items_from1 (PList (x # xs)) = xs"
| "items_from1 (PStr (c # r)) = map PStr (chars (drop (cp_len c - 1) r))"
| "items_from1 (PBytes (c # r)) = map (\<lambda>b. PInt (int (of_char b))) r"
| "items_from1 _ = []"

text \<open>\<^verbatim>\<open>x.upper()\<close>: a method of \<^verbatim>\<open>str\<close> and of \<^verbatim>\<open>bytes\<close> only.\<close>

fun upper_method :: "pyval \<Rightarrow> error + pyval" where
  "upper_method (PStr s) = Inr (PStr (upper s))"
| "upper_method (PBytes b) = Inr (PBytes (upper b))"
| "upper_method _ = Inl AttributeError"

text \<open>
  \<^verbatim>\<open>get_response\<close>. The result of \<^verbatim>\<open>data.split()\<close> is dropped: \<^verbatim>\<open>data\<close> stays
  the \<^verbatim>\<open>str\<close> it was, and the command is its first character. The keys of the command
  table are \<^verbatim>\<open>str\<close>, which no \<^verbatim>\<open>bytes\<close> object equals; in the message \<^verbatim>\<open>%s\<close> writes
  a \<^verbatim>\<open>bytes\<close> command as its \<^verbatim>\<open>repr\<close>.
\<close>

definition get_response :: "kv \<Rightarrow> pyval \<Rightarrow> (error + pyval) \<times> kv" where
  "get_response kv data =
     (if \<not> is_list data \<and> \<not> has_split data then
        (Inl (CommandError ''Argument must be list or string''), kv)
      else if \<not> truthy data then (Inl (CommandError ''No command provided''), kv)
      else
        (case item0 data of
           Inl e \<Rightarrow> (Inl e, kv)
         | Inr x \<Rightarrow>
             (case upper_method x of
                Inr (PStr command) \<Rightarrow>
                  (case map_of get_commands command of
                     None \<Rightarrow> (Inl (CommandError (''Command '' @ command @ '' does not exist'')), kv)
                   | Some handler \<Rightarrow> handler kv (items_from1 data))
              | Inr (PBytes command) \<Rightarrow>
                  (Inl (CommandError (''Command '' @ bytes_repr command @ '' does not exist'')), kv)
              | Inr _ \<Rightarrow> (Inl AttributeError, kv)
              | Inl e \<Rightarrow> (Inl e, kv))))"

subsection \<open>The session loop\<close>

text \<open>
  \<^verbatim>\<open>connection_handler\<close> on a store, the bytes the client sends and the bytes written so
  far. \<^verbatim>\<open>Disconnect\<close> from the decoder ends the loop and the handler returns
  (\<open>Closed\<close>); any other exception of the decoder leaves the handler, since only
  \<^verbatim>\<open>Disconnect\<close> is caught around \<^verbatim>\<open>handle_request\<close>. A \<^verbatim>\<open>CommandError\<close> of
  \<^verbatim>\<open>get_response\<close> becomes the reply \<^verbatim>\<open>Error(message)\<close>; any other exception of
  \<^verbatim>\<open>get_response\<close> or of \<^verbatim>\<open>write_response\<close> leaves the handler (\<open>Raised\<close>). Faults
  of the socket itself are not modelled.
\<close>

datatype outcome = Closed | Raised error

function connection_handler :: "kv \<Rightarrow> bytes \<Rightarrow> bytes \<Rightarrow> outcome \<times> kv \<times> bytes" where
  "connection_handler kv s out =
     (case handle_request s of
        Inl Disconnect \<Rightarrow> (Closed, kv, out)
      | Inl e \<Rightarrow> (Raised e, kv, out)
      | Inr (data, r) \<Rightarrow>
          (case get_response kv data of
             (Inl (CommandError message), kv') \<Rightarrow>
               (case write_response (PError message) of
                  Inl e \<Rightarrow> (Raised e, kv', out)
                | Inr reply \<Rightarrow> connection_handler kv' r (out @ reply))
           | (Inl e, kv') \<Rightarrow> (Raised e, kv', out)
           | (Inr resp, kv') \<Rightarrow>
               (case write_response resp of
                  Inl e \<Rightarrow> (Raised e, kv', out)
                | Inr reply \<Rightarrow> connection_handler kv' r (out @ reply))))"
  by pat_completeness auto
termination connection_handler
proof (relation "measure (\<lambda>(kv, s, out). length s)", goal_cases)
  case 1
  show ?case by simp
next
  case (2 kv s out p data r)
  then show ?case using handle_request_shorter [of s data r] by simp
next
  case (3 kv s out p data r)
  then show ?case using handle_request_shorter [of s data r] by simp
qed

declare connection_handler.simps [simp del]

section \<open>Client\<close>

text \<open>
  \<^verbatim>\<open>execute(*args)\<close> writes the tuple of its arguments as one request, decodes one reply
  from the bytes the server sends back, and raises \<^verbatim>\<open>CommandError\<close> when the decoded
  reply is an instance of \<^verbatim>\<open>Error\<close>.
\<close>

definition execute :: "pyval list \<Rightarrow> bytes \<Rightarrow> error + pyval" where
  "execute args reply =
     (case write_response (PList args) of
        Inl e \<Rightarrow> Inl e
      | Inr request \<Rightarrow>
          (case handle_request reply of
             Inl e \<Rightarrow> Inl e
           | Inr (resp, r) \<Rightarrow>
               (case resp of PError message \<Rightarrow> Inl (CommandError message) | _ \<Rightarrow> Inr resp)))"

section \<open>Predicates of the statements\<close>

text \<open>Text all of whose bytes are ASCII.\<close>

definition ascii :: "string \<Rightarrow> bool" where
  "ascii s = list_all (\<lambda>c. (of_char c :: nat) < 128) s"

text \<open>
  The integers of the wire format, and the values built from them alone, nested to a depth
  of at most \<open>d\<close>: integers, lists of such values, and dictionaries from integers to such
  values.
\<close>

definition wire_int :: "int \<Rightarrow> bool" where
  "wire_int i = (- (2 ^ 63) \<le> i \<and> i < 2 ^ 63)"

fun int_tree :: "nat \<Rightarrow> pyval \<Rightarrow> bool"
  and int_trees :: "nat \<Rightarrow> pyval list \<Rightarrow> bool"
  and int_items :: "nat \<Rightarrow> (pyval \<times> pyval) list \<Rightarrow> bool"
where
  "int_tree d (PInt i) = wire_int i"
| "int_tree d (PList xs) = (0 < d \<and> int_trees (d - 1) xs)"
| "int_tree d (PDict ps) = (0 < d \<and> distinct (map fst ps) \<and> int_items (d - 1) ps)"
| "int_tree d _ = False"
| "int_trees d [] = True"
| "int_trees d (x # xs) = (int_tree d x \<and> int_trees d xs)"
| "int_items d [] = True"
| "int_items d ((k, v) # ps) =
     ((case k of PInt i \<Rightarrow> wire_int i | _ \<Rightarrow> False) \<and> int_tree d v \<and> int_items d ps)"

section \<open>Dictionaries and slices\<close>

lemma map_of_dict_set: "map_of (dict_set k v d) = (map_of d)(k \<mapsto> v)"
  by (induction d) (auto simp: fun_eq_iff)

lemma map_of_dict_del: "map_of (dict_del k d) = (map_of d)(k := None)"
  by (induction d) (auto simp: dict_del_def fun_eq_iff)

lemma fst_set_dict_del: "fst ` set (dict_del k d) = fst ` set d - {k}"
  by (auto simp: dict_del_def)

lemma dict_get_dict_set: "dict_get (dict_set k v d) k' = (if k' = k then v else dict_get d k')"
  by (simp add: dict_get_def map_of_dict_set)

lemma dict_get_absent: "k \<notin> fst ` set d \<Longrightarrow> dict_get d k = PNone"
proof -
  assume "k \<notin> fst ` set d"
  then have "map_of d k = None" by (simp add: map_of_eq_None_iff)
  then show ?thesis by (simp add: dict_get_def)
qed

lemma zip_slices_flatten: "zip (slice_even (flatten ps)) (slice_odd (flatten ps)) = ps"
  by (induction ps) (auto simp: flatten_def)

lemma zip_slices_flatten_snoc:
  "zip (slice_even (flatten ps @ [x])) (slice_odd (flatten ps @ [x])) = ps"
  by (induction ps) (auto simp: flatten_def)

lemma mset_loop_fold:
  "list_all (\<lambda>p. hashable (fst p)) ps \<Longrightarrow>
    mset_loop kv ps = (Inr (PInt 1), fold (\<lambda>p kv. snd (server_set kv (fst p) (snd p))) ps kv)"
  by (induction ps arbitrary: kv) (auto simp: server_set_def)

section \<open>The codec\<close>

subsection \<open>Integers as text\<close>

lemma digit_char_props:
  assumes "d < 10"
  shows "is_digit (digit_char d)" and "int (of_char (digit_char d)) - 48 = int d"
    and "digit_char d \<noteq> LF" and "digit_char d \<noteq> CR" and "\<not> is_space (digit_char d)"
    and "digit_char d \<noteq> CHR ''-''" and "digit_char d \<noteq> CHR ''+''"
    and "(of_char (digit_char d) :: nat) < 128"
proof -
  from assms have "d \<in> {0, 1, 2, 3, 4, 5, 6, 7, 8, 9}" by auto
  then show "is_digit (digit_char d)" and "int (of_char (digit_char d)) - 48 = int d"
    and "digit_char d \<noteq> LF" and "digit_char d \<noteq> CR" and "\<not> is_space (digit_char d)"
    and "digit_char d \<noteq> CHR ''-''" and "digit_char d \<noteq> CHR ''+''"
    and "(of_char (digit_char d) :: nat) < 128"
    by (auto simp: digit_char_def is_digit_def is_space_def)
qed

lemma show_nat_not_Nil: "show_nat n \<noteq> []"
  by (subst show_nat.simps) simp

lemma show_nat_digits: "c \<in> set (show_nat n) \<Longrightarrow> \<exists>d<10. c = digit_char d"
proof (induction n arbitrary: c rule: show_nat.induct)
  case (1 n)
  show ?case
  proof (cases "n < 10")
    case True
    with "1.prems" show ?thesis by (subst (asm) show_nat.simps) auto
  next
    case False
    from "1.prems" have "c \<in> set (show_nat (n div 10)) \<or> c = digit_char (n mod 10)"
      using False by (subst (asm) show_nat.simps) auto
    then show ?thesis
    proof
      assume "c \<in> set (show_nat (n div 10))"
      with "1.IH" [OF False] show ?thesis by blast
    next
      assume "c = digit_char (n mod 10)"
      moreover have "n mod 10 < 10" by simp
      ultimately show ?thesis by blast
    qed
  qed
qed

lemma digits_ok_all: "ds \<noteq> [] \<Longrightarrow> \<forall>c\<in>set ds. is_digit c \<Longrightarrow> digits_ok ds"
proof (induction ds rule: digits_ok.induct)
  case 1
  then show ?case by simp
next
  case (2 c)
  then show ?case by simp
next
  case (3 c d r)
  from "3.prems" have "is_digit d" by simp
  then have "d \<noteq> CHR ''_''" by (auto simp: is_digit_def)
  with 3 show ?case by simp
qed

lemma digits_value_snoc:
  "is_digit c \<Longrightarrow> digits_value (ds @ [c]) = 10 * digits_value ds + (int (of_char c) - 48)"
  by (simp add: digits_value_def)

lemma digits_value_show_nat: "digits_value (show_nat n) = int n"
proof (induction n rule: show_nat.induct)
  case (1 n)
  show ?case
  proof (cases "n < 10")
    case True
    then show ?thesis
      by (subst show_nat.simps) (simp add: digits_value_def digit_char_props)
  next
    case False
    have m: "n mod 10 < 10" by simp
    have "digits_value (show_nat n)
        = digits_value (show_nat (n div 10) @ [digit_char (n mod 10)])"
      using False by (subst show_nat.simps) simp
    also have "\<dots> = 10 * int (n div 10) + int (n mod 10)"
      by (simp add: digits_value_snoc digit_char_props(1,2) [OF m] "1.IH" [OF False])
    also have "\<dots> = int n" by presburger
    finally show ?thesis .
  qed
qed

lemma show_nat_is_digit: "\<forall>c\<in>set (show_nat n). is_digit c"
  using show_nat_digits digit_char_props(1) by blast

lemma digits_ok_show_nat: "digits_ok (show_nat n)"
  by (rule digits_ok_all [OF show_nat_not_Nil show_nat_is_digit])

lemma dropWhile_id: "xs \<noteq> [] \<Longrightarrow> \<not> P (hd xs) \<Longrightarrow> dropWhile P xs = xs"
  by (cases xs) auto

lemma rstrip_id: "xs \<noteq> [] \<Longrightarrow> \<not> P (last xs) \<Longrightarrow> rev (dropWhile P (rev xs)) = xs"
  by (simp add: dropWhile_id hd_rev)

lemma show_nat_hd: "\<exists>d<10. hd (show_nat n) = digit_char d"
  using show_nat_digits [of "hd (show_nat n)" n] show_nat_not_Nil [of n] by simp

lemma show_nat_last: "\<exists>d<10. last (show_nat n) = digit_char d"
  using show_nat_digits [of "last (show_nat n)" n] show_nat_not_Nil [of n] by simp

lemma py_int_show_nat: "py_int (show_nat n) = Inr (int n)"
proof -
  obtain d where d: "d < 10" "hd (show_nat n) = digit_char d" using show_nat_hd by blast
  obtain e where e: "e < 10" "last (show_nat n) = digit_char e" using show_nat_last by blast
  have a: "dropWhile is_space (show_nat n) = show_nat n"
    by (rule dropWhile_id) (simp_all add: show_nat_not_Nil d digit_char_props)
  have b: "rev (dropWhile is_space (rev (show_nat n))) = show_nat n"
    by (rule rstrip_id) (simp_all add: show_nat_not_Nil e digit_char_props)
  show ?thesis
    by (simp add: py_int_def a b show_nat_not_Nil d digit_char_props digits_ok_show_nat
        digits_value_show_nat)
qed

lemma py_int_minus_show_nat: "py_int (CHR ''-'' # show_nat n) = Inr (- int n)"
proof -
  obtain e where e: "e < 10" "last (show_nat n) = digit_char e" using show_nat_last by blast
  have a: "dropWhile is_space (CHR ''-'' # show_nat n) = CHR ''-'' # show_nat n"
    by (simp add: is_space_def)
  have b: "rev (dropWhile is_space (rev (CHR ''-'' # show_nat n))) = CHR ''-'' # show_nat n"
    by (rule rstrip_id) (simp_all add: show_nat_not_Nil e digit_char_props)
  show ?thesis
    unfolding py_int_def a b
    by (simp add: digits_ok_show_nat digits_value_show_nat)
qed

lemma py_int_show_int: "py_int (show_int i) = Inr i"
  by (simp add: show_int_def py_int_show_nat py_int_minus_show_nat)

lemma show_int_not_Nil: "show_int i \<noteq> []"
  by (simp add: show_int_def show_nat_not_Nil)

lemma show_int_chars:
  assumes "c \<in> set (show_int i)"
  shows "c \<noteq> LF" and "c \<noteq> CR" and "(of_char c :: nat) < 128"
proof -
  from assms have "c = CHR ''-'' \<or> (\<exists>d<10. c = digit_char d)"
    using show_nat_digits by (auto simp: show_int_def split: if_splits)
  then have "c \<noteq> LF \<and> c \<noteq> CR \<and> (of_char c :: nat) < 128"
  proof
    assume "c = CHR ''-''"
    then show ?thesis by simp
  next
    assume "\<exists>d<10. c = digit_char d"
    then obtain d where "d < 10" "c = digit_char d" by blast
    then show ?thesis by (simp add: digit_char_props)
  qed
  then show "c \<noteq> LF" and "c \<noteq> CR" and "(of_char c :: nat) < 128" by simp_all
qed

lemma utf8_valid_ascii: "\<forall>a\<in>set as. a < 128 \<Longrightarrow> utf8_valid as"
  by (induction as) auto

lemma decode_ascii: "ascii l \<Longrightarrow> decode l = Inr l"
  by (simp add: decode_def ascii_def list_all_iff utf8_valid_ascii)

lemma readline_line: "LF \<notin> set l \<Longrightarrow> readline (l @ LF # r) = (l @ [LF], r)"
proof -
  assume "LF \<notin> set l"
  then have a: "\<And>x. x \<in> set l \<Longrightarrow> x \<noteq> LF" by auto
  have "dropWhile (\<lambda>c. c \<noteq> LF) (l @ LF # r) = LF # r"
    using a by simp
  moreover have "takeWhile (\<lambda>c. c \<noteq> LF) (l @ LF # r) = l"
    using a by simp
  ultimately show ?thesis by (simp add: readline_def)
qed

lemma rstrip_CRLF: "l = [] \<or> (last l \<noteq> CR \<and> last l \<noteq> LF) \<Longrightarrow> rstrip CRLF (l @ CRLF) = l"
proof (cases "l = []")
  case True
  then show ?thesis by (simp add: rstrip_def)
next
  case False
  assume "l = [] \<or> (last l \<noteq> CR \<and> last l \<noteq> LF)"
  with False have "\<not> (last l \<in> set CRLF)" by simp
  from rstrip_id [of l "\<lambda>c. c \<in> set CRLF", OF False this] show ?thesis
    by (simp add: rstrip_def)
qed

lemma read_text_line:
  assumes "LF \<notin> set l" and "ascii l" and "l = [] \<or> (last l \<noteq> CR \<and> last l \<noteq> LF)"
  shows "read_text (l @ CRLF @ r) = Inr (l, r)"
proof -
  have a: "readline ((l @ [CR]) @ LF # r) = ((l @ [CR]) @ [LF], r)"
    by (rule readline_line) (use assms(1) in simp)
  have b: "decode (l @ CRLF) = Inr (l @ CRLF)"
    by (rule decode_ascii) (use assms(2) in \<open>simp add: ascii_def\<close>)
  show ?thesis
    using a b rstrip_CRLF [OF assms(3)] by (simp add: read_text_def)
qed

lemma read_int_show_int: "read_int (show_int i @ CR # LF # r) = Inr (i, r)"
proof -
  have "read_text (show_int i @ CRLF @ r) = Inr (show_int i, r)"
  proof (rule read_text_line)
    show "LF \<notin> set (show_int i)" using show_int_chars(1) by blast
    show "ascii (show_int i)" using show_int_chars(3) by (simp add: ascii_def list_all_iff)
    have "last (show_int i) \<in> set (show_int i)" using show_int_not_Nil by simp
    then show "show_int i = [] \<or> (last (show_int i) \<noteq> CR \<and> last (show_int i) \<noteq> LF)"
      using show_int_chars(1,2) by blast
  qed
  then show ?thesis by (simp add: read_int_def py_int_show_int)
qed

subsection \<open>Frames\<close>

lemma handle_request_integer: "handle_request (CHR '':'' # show_int i @ CR # LF # r) = Inr (PInt i, r)"
  by (simp add: handle_request.simps handle_integer_def read_int_show_int)

lemma handle_request_array:
  "handle_requests n (body @ r) = Inr (xs, r) \<Longrightarrow>
    handle_request (CHR ''*'' # show_int (int n) @ CR # LF # body @ r) = Inr (PList xs, r)"
  by (simp add: handle_request.simps handle_array.simps read_int_show_int)

lemma handle_request_dictionary:
  "handle_requests (2 * n) (body @ r) = Inr (xs, r) \<Longrightarrow>
    dict_of [] (zip (slice_even xs) (slice_odd xs)) = Inr d \<Longrightarrow>
    handle_request (CHR ''%'' # show_int (int n) @ CR # LF # body @ r) = Inr (PDict d, r)"
  by (simp add: handle_request.simps handle_dictionary.simps read_int_show_int nat_mult_distrib
      mult.commute)

lemma dict_set_new: "k \<notin> fst ` set d \<Longrightarrow> dict_set k v d = d @ [(k, v)]"
  by (induction d) auto

lemma dict_of_distinct:
  "distinct (map fst (d @ ps)) \<Longrightarrow> \<forall>p\<in>set ps. hashable (fst p) \<Longrightarrow> dict_of d ps = Inr (d @ ps)"
proof (induction ps arbitrary: d)
  case Nil
  then show ?case by simp
next
  case (Cons p ps)
  from Cons.prems(1) have new: "fst p \<notin> fst ` set d" by auto
  have "dict_of (d @ [(fst p, snd p)]) ps = Inr ((d @ [(fst p, snd p)]) @ ps)"
    by (rule Cons.IH) (use Cons.prems in auto)
  with Cons.prems(2) new show ?case by (simp add: dict_set_new)
qed

lemma int_items_hashable: "int_items d ps \<Longrightarrow> \<forall>p\<in>set ps. hashable (fst p)"
proof (induction ps)
  case Nil
  then show ?case by simp
next
  case (Cons p ps)
  obtain k v where p: "p = (k, v)" by (cases p)
  from Cons.prems p have "hashable k" and "int_items d ps" by (auto split: pyval.splits)
  with Cons.IH p show ?case by simp
qed

lemma roundtrip_all:
  "d \<le> 100 \<Longrightarrow> int_tree d v \<Longrightarrow>
     \<exists>bs. write_data v = Inr bs \<and> (\<forall>r. handle_request (bs @ r) = Inr (v, r))"
  "d1 \<le> 100 \<Longrightarrow> int_trees d1 xs \<Longrightarrow>
     \<exists>bs. write_items xs = Inr bs \<and> (\<forall>r. handle_requests (length xs) (bs @ r) = Inr (xs, r))"
  "d2 \<le> 100 \<Longrightarrow> int_items d2 ps \<Longrightarrow>
     \<exists>bs. write_pairs ps = Inr bs
       \<and> (\<forall>r. handle_requests (2 * length ps) (bs @ r) = Inr (flatten ps, r))"
proof (induction d v and d1 xs and d2 ps rule: int_tree_int_trees_int_items.induct)
  case (1 d i)
  show ?case by (simp add: handle_request_integer)
next
  case (2 d xs)
  from "2.prems" have "0 < d" and "d - 1 \<le> 100" and "int_trees (d - 1) xs" by simp_all
  from "2.IH" [OF this(2,3)] obtain body where b: "write_items xs = Inr body"
    and h: "\<And>r. handle_requests (length xs) (body @ r) = Inr (xs, r)" by auto
  show ?case using b handle_request_array [OF h] by simp
next
  case (3 d ps)
  from "3.prems" have "0 < d" and "d - 1 \<le> 100" and i: "int_items (d - 1) ps"
    and dist: "distinct (map fst ps)" by simp_all
  from "3.IH" [OF this(2,3)] obtain body where b: "write_pairs ps = Inr body"
    and h: "\<And>r. handle_requests (2 * length ps) (body @ r) = Inr (flatten ps, r)" by auto
  from dist i have "dict_of [] ps = Inr ([] @ ps)"
    by (intro dict_of_distinct int_items_hashable) simp_all
  then have "dict_of [] (zip (slice_even (flatten ps)) (slice_odd (flatten ps))) = Inr ps"
    by (simp add: zip_slices_flatten)
  from handle_request_dictionary [OF h this] b show ?case by simp
next
  case (6 d x xs)
  from "6.prems" have x: "int_tree d x" and xs: "int_trees d xs" by simp_all
  from "6.IH"(1) [OF "6.prems"(1) x] obtain a where a: "write_data x = Inr a"
    and ha: "\<And>r. handle_request (a @ r) = Inr (x, r)" by auto
  from "6.IH"(2) [OF "6.prems"(1) xs] obtain b where b: "write_items xs = Inr b"
    and hb: "\<And>r. handle_requests (length xs) (b @ r) = Inr (xs, r)" by auto
  show ?case using a b ha hb by simp
next
  case (8 d k v ps)
  from "8.prems" obtain i where k: "k = PInt i" by (auto split: pyval.splits)
  from "8.prems" have v: "int_tree d v" and ps: "int_items d ps" by simp_all
  from "8.IH"(1) [OF "8.prems"(1) v] obtain b where b: "write_data v = Inr b"
    and hb: "\<And>r. handle_request (b @ r) = Inr (v, r)" by auto
  from "8.IH"(2) [OF "8.prems"(1) ps] obtain c where c: "write_pairs ps = Inr c"
    and hc: "\<And>r. handle_requests (2 * length ps) (c @ r) = Inr (flatten ps, r)" by auto
  show ?case using k b c hb hc by (simp add: handle_request_integer flatten_def)
qed (simp_all add: flatten_def)


lemmas eval_text = handle_request.simps handle_array.simps handle_dictionary.simps
  handle_simple_string_def handle_error_message_def handle_integer_def handle_binary_def
  read_int_def read_text_def readline_def read_def decode_def rstrip_def py_int_def
  is_space_def is_digit_def digits_value_def cont_def
  show_int_def show_nat.simps digit_char_def write_response_def bytes_repr_def repr_byte_def
  hex_char_def Let_def

text \<open>
  Claim C1. The round trip fails on a bulk string: the payload that \<^verbatim>\<open>_write\<close> writes
  for \<^verbatim>\<open>bytes\<close> is their \<^verbatim>\<open>repr\<close>, after a length that counts the bytes themselves,
  so the decoder reads back the first bytes of the \<^verbatim>\<open>repr\<close> and leaves the rest in the
  stream. It fails on \<^verbatim>\<open>None\<close>, which cannot be written, and on an \<^verbatim>\<open>Error\<close>, which
  is read back as a \<^verbatim>\<open>str\<close>.
\<close>

theorem roundtrip_fails:
  "write_response (PBytes (''a'' @ CRLF @ ''b''))
     = Inr (''$4'' @ CRLF @ [CHR ''b'', CHR 0x27, CHR ''a'', CHR 0x5C, CHR ''r'', CHR 0x5C, CHR ''n'',
         CHR ''b'', CHR 0x27] @ CRLF)
   \<and> handle_request (''$4'' @ CRLF @ [CHR ''b'', CHR 0x27, CHR ''a'', CHR 0x5C, CHR ''r'', CHR 0x5C,
         CHR ''n'', CHR ''b'', CHR 0x27] @ CRLF)
     = Inr (PBytes [CHR ''b'', CHR 0x27, CHR ''a'', CHR 0x5C], [CHR ''n'', CHR ''b'', CHR 0x27] @ CRLF)
   \<and> write_response PNone = Inl TypeError
   \<and> write_response (PError ''x'') = Inr (''-x'' @ CRLF)
   \<and> handle_request (''-x'' @ CRLF) = Inr (PStr ''x'', [])"
  by (simp add: eval_text)

text \<open>A \<^verbatim>\<open>str\<close> is encoded first and then written as the \<^verbatim>\<open>bytes\<close> are: text never
  travels as a simple string.\<close>

lemma str_written_as_bytes: "write_response (PStr s) = write_response (PBytes s)"
  by (simp add: write_response_def)

text \<open>
  What does hold of the codec as it is: a value built from integers of the wire format,
  lists and dictionaries keyed by such integers, nested to a depth of at most 100, is
  encoded to a frame from which the decoder reads the value back, leaving what follows
  the frame in the stream.
\<close>

lemma roundtrip_int_tree:
  assumes "int_tree 100 v"
  shows "\<exists>bs. write_response v = Inr bs \<and> (\<forall>r. handle_request (bs @ r) = Inr (v, r))"
  using roundtrip_all(1) [OF _ assms] by (simp add: write_response_def)

lemma roundtrip_int_tree_example:
  "int_tree 100 (PList [PDict [(PInt 1, PList [PInt (- 3), PDict []])], PInt 42])
   \<and> write_response (PList [PDict [(PInt 1, PList [PInt (- 3), PDict []])], PInt 42])
      = Inr (''*2'' @ CRLF @ ''%1'' @ CRLF @ '':1'' @ CRLF @ ''*2'' @ CRLF @ '':-3'' @ CRLF
          @ ''%0'' @ CRLF @ '':42'' @ CRLF)
   \<and> handle_request (''*2'' @ CRLF @ ''%1'' @ CRLF @ '':1'' @ CRLF @ ''*2'' @ CRLF @ '':-3'' @ CRLF
          @ ''%0'' @ CRLF @ '':42'' @ CRLF)
      = Inr (PList [PDict [(PInt 1, PList [PInt (- 3), PDict []])], PInt 42], [])"
  using roundtrip_int_tree [of "PList [PDict [(PInt 1, PList [PInt (- 3), PDict []])], PInt 42]"]
  by (simp add: wire_int_def write_response_def show_int_def show_nat.simps digit_char_def)

text \<open>
  Claim C2, as amended. A bulk string whose declared length \<open>n\<close>, of at most \<open>2 ^ 20\<close>,
  exceeds the number of bytes left before the end of the stream does not fail: the
  decoder returns what is left without its last two bytes, a payload shorter than \<open>n\<close>,
  and the stream is used up.
\<close>

theorem truncated_bulk_string:
  assumes "0 \<le> n" and "n \<le> 2 ^ 20" and "length avail < nat n"
  shows "handle_request (CHR ''$'' # show_int n @ CRLF @ avail)
    = Inr (PBytes (take (length avail - 2) avail), [])"
  using assms
  by (simp add: handle_request.simps handle_binary_def read_int_show_int read_def)

theorem truncated_bulk_string_witness:
  "(0::int) \<le> 12 \<and> (12::int) \<le> 2 ^ 20 \<and> length ''hello'' < nat 12
   \<and> handle_request (''$12'' @ CRLF @ ''hello'') = Inr (PBytes ''hel'', [])"
  using truncated_bulk_string [of 12 "''hello''"]
  by (simp add: show_int_def show_nat.simps digit_char_def)

text \<open>The claim as stated fails: five bytes declared, three available, and the decoder
  returns one byte without an error.\<close>

theorem truncated_bulk_string_counterexample:
  "handle_request (''$5'' @ CRLF @ ''abc'') = Inr (PBytes ''a'', [])"
  by (simp add: eval_text)

text \<open>
  Claim C3. Decoding the frame \<^verbatim>\<open>$-1\r\n\<close> yields \<^verbatim>\<open>None\<close> and reads nothing after
  the line; but encoding \<^verbatim>\<open>None\<close> raises \<^verbatim>\<open>TypeError\<close> and writes no byte.
\<close>

theorem null_frame:
  "write_response PNone = Inl TypeError
   \<and> handle_request (''$-1'' @ CRLF @ r) = Inr (PNone, r)"
proof -
  have "show_int (- 1) = ''-1''" by (simp add: show_int_def show_nat.simps digit_char_def)
  with read_int_show_int [of "- 1" r] have "read_int (''-1'' @ CRLF @ r) = Inr (- 1, r)" by simp
  then show ?thesis by (simp add: write_response_def handle_request.simps handle_binary_def)
qed

section \<open>The client and the dispatcher\<close>

lemmas eval_dispatch = get_response_def get_commands_def upper_def upper_char_def
  server_get_def server_set_def server_delete_def server_flush_def server_mget_def
  server_mset_def dict_get_def cp_len_def

lemma handle_request_no_Error: "handle_request s \<noteq> Inr (PError message, r)"
proof (cases s)
  case Nil
  then show ?thesis by (simp add: handle_request.simps)
next
  case (Cons b t)
  then show ?thesis
    by (auto simp: handle_request.simps handle_array.simps handle_dictionary.simps
        handle_simple_string_def handle_error_message_def handle_integer_def handle_binary_def
        split: sum.splits if_splits)
qed

text \<open>
  Claim C4. No reply decodes to an instance of \<^verbatim>\<open>Error\<close>, so \<^verbatim>\<open>execute\<close> never
  raises on an error frame: it returns the message of the frame as a \<^verbatim>\<open>str\<close>.
\<close>

theorem execute_error_reply:
  "handle_request reply \<noteq> Inr (PError message, r)
   \<and> execute [PStr ''GET'', PStr ''k''] (''-Command FOO does not exist'' @ CRLF)
       = Inr (PStr ''Command FOO does not exist'')"
proof -
  have "execute [PStr ''GET'', PStr ''k''] (''-Command FOO does not exist'' @ CRLF)
       = Inr (PStr ''Command FOO does not exist'')"
    by (simp add: execute_def eval_text)
  with handle_request_no_Error show ?thesis by simp
qed

text \<open>
  Claim C5. A request that is a text command is not split: the command looked up is its
  first character, so \<^verbatim>\<open>GET k\<close> fails with \<^verbatim>\<open>Command G does not exist\<close>. A request
  that is an integer, \<^verbatim>\<open>None\<close> or a dictionary fails with
  \<^verbatim>\<open>Argument must be list or string\<close>; one that is a \<^verbatim>\<open>bytes\<close> object passes the
  test of its shape and raises \<^verbatim>\<open>AttributeError\<close>, its first element being an
  \<^verbatim>\<open>int\<close>.
\<close>

theorem text_command_dispatch:
  "handle_request (''+GET k'' @ CRLF) = Inr (PStr ''GET k'', [])
   \<and> get_response kv (PStr ''GET k'') = (Inl (CommandError ''Command G does not exist''), kv)
   \<and> get_response kv (PInt n) = (Inl (CommandError ''Argument must be list or string''), kv)
   \<and> get_response kv PNone = (Inl (CommandError ''Argument must be list or string''), kv)
   \<and> get_response kv (PDict d) = (Inl (CommandError ''Argument must be list or string''), kv)
   \<and> get_response kv (PBytes ''GET k'') = (Inl AttributeError, kv)"
  by (simp add: eval_text eval_dispatch)

subsection \<open>The session loop\<close>

lemma upper_char_idem: "upper_char (upper_char c) = upper_char c"
  by (simp add: upper_char_def)

lemma upper_idem: "upper (upper c) = upper c"
  by (simp add: upper_def upper_char_idem)

lemma read_text_error: "read_text s \<noteq> Inl (CommandError m)"
  by (simp add: read_text_def decode_def)

lemma py_int_error: "py_int t \<noteq> Inl (CommandError m)"
  by (simp add: py_int_def Let_def)

lemma read_int_error: "read_int s \<noteq> Inl (CommandError m)"
  using read_text_error py_int_error by (auto simp: read_int_def split: sum.splits)

lemma read_error: "read n s \<noteq> Inl (CommandError m)"
  by (simp add: read_def)

lemma handle_simple_string_error: "handle_simple_string s \<noteq> Inl (CommandError m)"
  using read_text_error by (auto simp: handle_simple_string_def split: sum.splits)

lemma handle_error_message_error: "handle_error_message s \<noteq> Inl (CommandError m)"
  using read_text_error by (auto simp: handle_error_message_def split: sum.splits)

lemma handle_integer_error: "handle_integer s \<noteq> Inl (CommandError m)"
  using read_int_error by (auto simp: handle_integer_def split: sum.splits)

lemma handle_binary_error: "handle_binary s \<noteq> Inl (CommandError m)"
  using read_int_error read_error by (auto simp: handle_binary_def split: sum.splits)

lemma dict_of_error: "dict_of d ps \<noteq> Inl (CommandError m)"
  by (induction ps arbitrary: d) auto

text \<open>The only \<^verbatim>\<open>CommandError\<close> of the decoder is \<^verbatim>\<open>bad request\<close>.\<close>

lemma handle_request_CommandError:
  "handle_request s = Inl (CommandError m) \<Longrightarrow> m = ''bad request''"
  "handle_array s1 = Inl (CommandError m1) \<Longrightarrow> m1 = ''bad request''"
  "handle_dictionary s2 = Inl (CommandError m2) \<Longrightarrow> m2 = ''bad request''"
  "handle_requests k s3 = Inl (CommandError m3) \<Longrightarrow> m3 = ''bad request''"
proof (induct s and s1 and s2 and k s3 arbitrary: m and m1 and m2 and m3
    rule: handle_request_handle_array_handle_dictionary_handle_requests.induct)
  case (1 s)
  show ?case
  proof (cases s)
    case Nil
    with "1.prems" show ?thesis by (simp add: handle_request.simps)
  next
    case (Cons b t)
    show ?thesis
      using "1.prems" "1.hyps"(1) [OF Cons, of m] "1.hyps"(2) [OF Cons, of m] Cons
        handle_simple_string_error [of t m] handle_error_message_error [of t m]
        handle_integer_error [of t m] handle_binary_error [of t m]
      by (auto simp: handle_request.simps split: if_splits)
  qed
next
  case (2 s)
  show ?case
  proof (cases "read_int s")
    case (Inl e)
    then have "handle_array s = Inl e" by (subst handle_array.simps) simp
    with "2.prems" Inl read_int_error [of s m1] show ?thesis by simp
  next
    case (Inr p)
    obtain n t where p: "p = (n, t)" by (cases p)
    from "2.prems" Inr p have "handle_requests (nat n) t = Inl (CommandError m1)"
      by (auto simp: handle_array.simps split: sum.splits)
    from "2.hyps" [OF Inr p [symmetric] this] show ?thesis .
  qed
next
  case (3 s)
  show ?case
  proof (cases "read_int s")
    case (Inl e)
    then have "handle_dictionary s = Inl e" by (subst handle_dictionary.simps) simp
    with "3.prems" Inl read_int_error [of s m2] show ?thesis by simp
  next
    case (Inr p)
    obtain n t where p: "p = (n, t)" by (cases p)
    from "3.prems" Inr p dict_of_error
    have "handle_requests (nat (n * 2)) t = Inl (CommandError m2)"
      by (auto simp: handle_dictionary.simps split: sum.splits)
    from "3.hyps" [OF Inr p [symmetric] this] show ?thesis .
  qed
next
  case (4 s)
  then show ?case by simp
next
  case (5 k s)
  show ?case
  proof (cases "handle_request s")
    case (Inl e)
    with "5.prems" "5.hyps"(1) [of m3] show ?thesis by simp
  next
    case (Inr p)
    obtain x t where p: "p = (x, t)" by (cases p)
    from "5.prems" Inr p have "handle_requests k t = Inl (CommandError m3)"
      by (auto split: sum.splits)
    from "5.hyps"(2) [OF Inr p [symmetric] this] show ?thesis .
  qed
qed

text \<open>The encoder raises no \<^verbatim>\<open>CommandError\<close> on the values of the model.\<close>

lemma write_data_error:
  "write_data v \<noteq> Inl (CommandError m)"
  "write_items xs \<noteq> Inl (CommandError m)"
  "write_pairs ps \<noteq> Inl (CommandError m)"
  by (induction v and xs and ps rule: write_data_write_items_write_pairs.induct)
    (auto split: sum.splits)

lemma connection_handler_step:
  assumes "handle_request s = Inr (data, r)"
    and "get_response kv data = (Inl (CommandError m), kv')"
  shows "connection_handler kv s out = connection_handler kv' r (out @ CHR ''-'' # m @ CRLF)"
  using assms by (subst connection_handler.simps) (simp add: write_response_def)

lemma connection_handler_CommandError:
  "fst (connection_handler kv s out) = Raised (CommandError m) \<Longrightarrow> m = ''bad request''"
proof (induction kv s out rule: connection_handler.induct)
  case (1 kv s out)
  show ?case
  proof (cases "handle_request s")
    case (Inl e)
    with "1.prems" handle_request_CommandError(1) [of s m] show ?thesis
      by (subst (asm) connection_handler.simps) (auto split: error.splits)
  next
    case (Inr p)
    obtain data r where p: "p = (data, r)" by (cases p)
    obtain res kv' where g: "get_response kv data = (res, kv')" by (cases "get_response kv data")
    show ?thesis
    proof (cases res)
      case (Inl e)
      show ?thesis
      proof (cases e)
        case (CommandError msg)
        from "1.prems" Inr p g Inl CommandError
        have "fst (connection_handler kv' r (out @ CHR ''-'' # msg @ CRLF)) = Raised (CommandError m)"
          by (subst (asm) connection_handler.simps) (simp add: write_response_def)
        with "1.IH"(1) [OF Inr p [symmetric] g [symmetric] _ _ ] Inl CommandError
        show ?thesis by (simp add: write_response_def)
      qed (use "1.prems" Inr p g Inl in \<open>subst (asm) connection_handler.simps, simp\<close>)+
    next
      case (Inr resp)
      show ?thesis
      proof (cases "write_response resp")
        case (Inl e)
        with write_data_error(1) [of resp m] have "e \<noteq> CommandError m"
          by (auto simp: write_response_def)
        with "1.prems" \<open>handle_request s = Inr p\<close> p g Inr Inl show ?thesis
          by (subst (asm) connection_handler.simps) simp
      next
        case (Inr reply)
        from "1.prems" \<open>handle_request s = Inr p\<close> p g \<open>res = Inr resp\<close> Inr
        have "fst (connection_handler kv' r (out @ reply)) = Raised (CommandError m)"
          by (subst (asm) connection_handler.simps) simp
        with "1.IH"(2) [OF \<open>handle_request s = Inr p\<close> p [symmetric] g [symmetric] \<open>res = Inr resp\<close> Inr]
        show ?thesis by simp
      qed
    qed
  qed
qed

lemma get_response_upper:
  "ascii c \<Longrightarrow>
    get_response kv (PList (PStr c # args)) = get_response kv (PList (PStr (upper c) # args))"
  by (simp add: get_response_def upper_idem split: option.splits)

lemma get_response_unknown:
  assumes "ascii c" and "upper c \<notin> fst ` set get_commands"
  shows "get_response kv (PList (PStr c # args))
    = (Inl (CommandError (''Command '' @ upper c @ '' does not exist'')), kv)"
proof -
  from assms(2) have "map_of get_commands (upper c) = None" by (simp add: map_of_eq_None_iff)
  then show ?thesis by (simp add: get_response_def)
qed

text \<open>
  A command name that arrives as a simple string is looked up whatever its case, and one
  that is in no case a key of the command table raises
  \<^verbatim>\<open>CommandError('Command X does not exist')\<close>.
\<close>

lemma simple_string_command:
  "get_response kv (PList [PStr ''get'', k]) = server_get kv k
   \<and> get_response kv (PList [PStr ''GET'', k]) = server_get kv k
   \<and> get_response kv (PList [PStr ''foo'', k])
       = (Inl (CommandError ''Command FOO does not exist''), kv)"
  by (simp add: get_response_def get_commands_def upper_def upper_char_def)

text \<open>
  Claim C6. A command name that arrives as a bulk string, the carrier of the protocol for
  keys and values, is a \<^verbatim>\<open>bytes\<close> object: upper-cased it is still one, and it equals no
  key of the command table, whose keys are \<^verbatim>\<open>str\<close>. So the request
  \<^verbatim>\<open>*2\r\n$3\r\nget\r\n$1\r\nk\r\n\<close> calls no handler, in either case of the name: the
  reply is the error frame \<^verbatim>\<open>-Command b'GET' does not exist\r\n\<close>, after which the
  session goes on. The same name sent as a simple string does call \<^verbatim>\<open>Server.get\<close>.
\<close>

theorem bulk_string_command:
  "handle_request (''*2'' @ CRLF @ ''$3'' @ CRLF @ ''get'' @ CRLF @ ''$1'' @ CRLF @ ''k'' @ CRLF)
     = Inr (PList [PBytes ''get'', PBytes ''k''], [])
   \<and> get_response kv (PList (PBytes c # args))
     = (Inl (CommandError (''Command '' @ bytes_repr (upper c) @ '' does not exist'')), kv)
   \<and> connection_handler [(PBytes ''k'', PBytes ''v'')]
       (''*2'' @ CRLF @ ''$3'' @ CRLF @ ''get'' @ CRLF @ ''$1'' @ CRLF @ ''k'' @ CRLF) []
     = (Closed, [(PBytes ''k'', PBytes ''v'')],
        ''-Command b'' @ [CHR 0x27] @ ''GET'' @ [CHR 0x27] @ '' does not exist'' @ CRLF)
   \<and> get_response kv (PList [PStr ''get'', PBytes ''k'']) = server_get kv (PBytes ''k'')"
proof -
  have "get_response kv (PList (PBytes c # args))
     = (Inl (CommandError (''Command '' @ bytes_repr (upper c) @ '' does not exist'')), kv)"
    by (simp add: get_response_def)
  moreover have "handle_request
      (''*2'' @ CRLF @ ''$3'' @ CRLF @ ''get'' @ CRLF @ ''$1'' @ CRLF @ ''k'' @ CRLF)
     = Inr (PList [PBytes ''get'', PBytes ''k''], [])"
    by (simp add: eval_text numeral_2_eq_2)
  moreover have "connection_handler [(PBytes ''k'', PBytes ''v'')]
       (''*2'' @ CRLF @ ''$3'' @ CRLF @ ''get'' @ CRLF @ ''$1'' @ CRLF @ ''k'' @ CRLF) []
     = (Closed, [(PBytes ''k'', PBytes ''v'')],
        ''-Command b'' @ [CHR 0x27] @ ''GET'' @ [CHR 0x27] @ '' does not exist'' @ CRLF)"
    by (simp add: connection_handler.simps eval_text eval_dispatch numeral_2_eq_2)
  moreover have "get_response kv (PList [PStr ''get'', PBytes ''k'']) = server_get kv (PBytes ''k'')"
    by (simp add: get_response_def get_commands_def upper_def upper_char_def)
  ultimately show ?thesis by simp
qed

text \<open>
  The session loop ends when the peer closes, and on every exception but a
  \<^verbatim>\<open>CommandError\<close> of \<^verbatim>\<open>get_response\<close>: on the decoder's
  \<^verbatim>\<open>CommandError('bad request')\<close> for an unknown tag byte, which is raised outside the
  \<^verbatim>\<open>try\<close> block that catches \<^verbatim>\<open>CommandError\<close>, and on the \<^verbatim>\<open>TypeError\<close> of
  \<^verbatim>\<open>GET\<close> called without a key, with no reply.
\<close>

lemma session_ends_on_exception:
  "connection_handler [] ''!'' [] = (Raised (CommandError ''bad request''), [], [])
   \<and> connection_handler [] (''*1'' @ CRLF @ ''+GET'' @ CRLF) [] = (Raised TypeError, [], [])"
  by (simp add: connection_handler.simps eval_text eval_dispatch)

section \<open>The store operations\<close>

text \<open>
  Claim C7. For every key that can be hashed (the keys of the store are byte strings) and
  every value, in any store: \<^verbatim>\<open>SET(k, v)\<close> returns 1 and a following \<^verbatim>\<open>GET(k)\<close>
  returns \<^verbatim>\<open>v\<close>; after \<^verbatim>\<open>DELETE(k)\<close>, \<^verbatim>\<open>GET(k)\<close> returns \<^verbatim>\<open>None\<close>;
  \<^verbatim>\<open>DELETE(k)\<close> returns 1 when the key was present and 0 when it was absent, so a second
  \<^verbatim>\<open>DELETE(k)\<close> in a row returns 0.
\<close>

theorem set_get_delete:
  assumes "hashable k"
  shows "fst (server_set kv k v) = Inr (PInt 1)
    \<and> fst (server_get (snd (server_set kv k v)) k) = Inr v
    \<and> fst (server_get (snd (server_delete kv k)) k) = Inr PNone
    \<and> fst (server_delete kv k) = Inr (PInt (if k \<in> fst ` set kv then 1 else 0))
    \<and> fst (server_delete (snd (server_delete kv k)) k) = Inr (PInt 0)"
  using assms
  by (simp add: server_set_def server_get_def server_delete_def dict_get_dict_set
      dict_get_absent fst_set_dict_del)

theorem set_get_delete_witness:
  "hashable (PBytes ''k'')
    \<and> fst (server_set [] (PBytes ''k'') (PBytes ''v'')) = Inr (PInt 1)
    \<and> fst (server_get (snd (server_set [] (PBytes ''k'') (PBytes ''v''))) (PBytes ''k'')) = Inr (PBytes ''v'')
    \<and> fst (server_get (snd (server_delete [(PBytes ''k'', PBytes ''v'')] (PBytes ''k''))) (PBytes ''k'')) = Inr PNone
    \<and> fst (server_delete [(PBytes ''k'', PBytes ''v'')] (PBytes ''k'')) = Inr (PInt 1)
    \<and> fst (server_delete (snd (server_delete [(PBytes ''k'', PBytes ''v'')] (PBytes ''k''))) (PBytes ''k'')) = Inr (PInt 0)"
  using set_get_delete [of "PBytes ''k''" "[]" "PBytes ''v''"]
    set_get_delete [of "PBytes ''k''" "[(PBytes ''k'', PBytes ''v'')]" "PBytes ''v''"]
  by simp

text \<open>
  Claim C8. \<^verbatim>\<open>MGET\<close> returns the list of the results of \<^verbatim>\<open>GET\<close> on its keys, in the
  order of the keys, each key looked up on its own (the stored value, or \<^verbatim>\<open>None\<close>);
  \<^verbatim>\<open>MSET(a, x, b, y)\<close> followed by \<^verbatim>\<open>MGET(a, b, c)\<close> returns \<^verbatim>\<open>[x, y, None]\<close> for
  distinct keys when \<^verbatim>\<open>c\<close> is not in the store.
\<close>

theorem mget_in_order:
  "(list_all hashable keys \<longrightarrow>
      fst (server_mget kv keys) = Inr (PList (map (dict_get kv) keys))
      \<and> list_all (\<lambda>k. fst (server_get kv k) = Inr (dict_get kv k)) keys)
   \<and> (hashable a \<and> hashable b \<and> hashable c \<and> a \<noteq> b \<and> a \<noteq> c \<and> b \<noteq> c
        \<and> c \<notin> fst ` set kv \<longrightarrow>
      fst (server_mget (snd (server_mset kv [a, x, b, y])) [a, b, c]) = Inr (PList [x, y, PNone]))"
  by (auto simp: server_mget_def server_get_def server_mset_def dict_get_dict_set
      dict_get_absent list_all_iff)

theorem mget_in_order_witness:
  "list_all hashable [PStr ''a'', PStr ''b'', PStr ''a'']
   \<and> fst (server_mget [(PStr ''a'', PInt 7)] [PStr ''a'', PStr ''b'', PStr ''a''])
       = Inr (PList [PInt 7, PNone, PInt 7])
   \<and> fst (server_mget (snd (server_mset [] [PStr ''a'', PStr ''1'', PStr ''b'', PStr ''2'']))
        [PStr ''a'', PStr ''b'', PStr ''c'']) = Inr (PList [PStr ''1'', PStr ''2'', PNone])"
  using mget_in_order [of "[PStr ''a'', PStr ''b'', PStr ''a'']" "[(PStr ''a'', PInt 7)]"
      "PStr ''a''" "PStr ''b''" "PStr ''c''" "PStr ''1''" "PStr ''2''"]
    mget_in_order [of "[]" "[]" "PStr ''a''" "PStr ''b''" "PStr ''c''" "PStr ''1''" "PStr ''2''"]
  by (simp add: dict_get_def)

text \<open>
  Claim C9. On an argument list of even length, the list of the pairs \<open>ps\<close>, \<^verbatim>\<open>MSET\<close>
  applies every pair as a \<^verbatim>\<open>SET\<close>, in order, and returns 1; with one more argument at
  the end it does exactly the same: the unpaired argument is dropped, and no error is
  raised.
\<close>

theorem mset_pairs:
  assumes "list_all (\<lambda>p. hashable (fst p)) ps"
  shows "server_mset kv (flatten ps)
      = (Inr (PInt 1), fold (\<lambda>p kv. snd (server_set kv (fst p) (snd p))) ps kv)
    \<and> server_mset kv (flatten ps @ [x]) = server_mset kv (flatten ps)"
  using assms
  by (simp add: server_mset_def zip_slices_flatten zip_slices_flatten_snoc mset_loop_fold)

theorem mset_pairs_witness:
  "list_all (\<lambda>p. hashable (fst p)) [(PStr ''a'', PInt 1), (PStr ''a'', PInt 2)]
   \<and> server_mset [] [PStr ''a'', PInt 1, PStr ''a'', PInt 2] = (Inr (PInt 1), [(PStr ''a'', PInt 2)])
   \<and> server_mset [] [PStr ''a'', PInt 1, PStr ''a'', PInt 2, PStr ''b'']
      = (Inr (PInt 1), [(PStr ''a'', PInt 2)])"
  using mset_pairs [of "[(PStr ''a'', PInt 1), (PStr ''a'', PInt 2)]" "[]" "PStr ''b''"]
  by (simp add: flatten_def server_set_def)

text \<open>
  Claim C10. \<^verbatim>\<open>GET\<close> and \<^verbatim>\<open>MGET\<close> leave the store as it is; \<^verbatim>\<open>SET(k, v)\<close> and
  \<^verbatim>\<open>DELETE(k)\<close> leave the binding of every key other than \<^verbatim>\<open>k\<close> as it is.
\<close>

theorem store_frame:
  "snd (server_get kv k) = kv
   \<and> snd (server_mget kv keys) = kv
   \<and> (k' \<noteq> k \<longrightarrow> map_of (snd (server_set kv k v)) k' = map_of kv k')
   \<and> (k' \<noteq> k \<longrightarrow> map_of (snd (server_delete kv k)) k' = map_of kv k')"
  by (simp add: server_get_def server_mget_def server_set_def server_delete_def
      map_of_dict_set map_of_dict_del)

theorem store_frame_witness:
  "snd (server_get [(PStr ''a'', PInt 1)] (PStr ''b'')) = [(PStr ''a'', PInt 1)]
   \<and> snd (server_mget [(PStr ''a'', PInt 1)] [PStr ''a'', PStr ''b'']) = [(PStr ''a'', PInt 1)]
   \<and> PStr ''a'' \<noteq> PStr ''b''
   \<and> map_of (snd (server_set [(PStr ''a'', PInt 1)] (PStr ''b'') (PInt 2))) (PStr ''a'') = Some (PInt 1)
   \<and> map_of (snd (server_delete [(PStr ''a'', PInt 1), (PStr ''b'', PInt 2)] (PStr ''b''))) (PStr ''a'')
      = Some (PInt 1)"
  using store_frame [of "[(PStr ''a'', PInt 1)]" "PStr ''b''" "[PStr ''a'', PStr ''b'']" "PStr ''a''" "PInt 2"]
    store_frame [of "[(PStr ''a'', PInt 1), (PStr ''b'', PInt 2)]" "PStr ''b''" "[]" "PStr ''a''" "PInt 2"]
  by simp

end
